theory Spec2Isabelle
  imports Main
begin

section \<open>JavaScript values held by the token module\<close>

text \<open>
  The module keeps whatever \<^verbatim>\<open>JSON.parse\<close> or the OAuth library hands it; the
  TypeScript interface \<^verbatim>\<open>FitbitTokenData\<close> is not checked at run time. Values
  are therefore modelled as JSON values. \<^verbatim>\<open>null\<close> and \<^verbatim>\<open>undefined\<close> are both
  \<open>JNull\<close>: the module only tests them for truthiness. Numbers are the integers,
  strings are lists of code units below 256, and an object is the list of its
  members in enumeration order. The \<^verbatim>\<open>Date\<close> that the OAuth library stores as
  \<^verbatim>\<open>expires_at\<close> of a record it creates is modelled by the string that
  \<^verbatim>\<open>JSON.stringify\<close> prints for it.
\<close>

datatype json =
    JNull
  | JBool bool
  | JNum int
  | JStr string
  | JArr "json list"
  | JObj "(string \<times> json) list"

text \<open>JavaScript truthiness, as tested by \<^verbatim>\<open>if (v)\<close>, \<^verbatim>\<open>!v\<close> and \<^verbatim>\<open>a && b\<close>.\<close>

fun truthy :: "json \<Rightarrow> bool" where
  "truthy JNull = False"
| "truthy (JBool b) = b"
| "truthy (JNum n) = (n \<noteq> 0)"
| "truthy (JStr s) = (s \<noteq> [])"
| "truthy (JArr xs) = True"
| "truthy (JObj kvs) = True"

text \<open>
  Property access \<^verbatim>\<open>v.k\<close> for the keys the module reads. A key that is not
  there gives \<^verbatim>\<open>undefined\<close>; of a repeated key the last member counts.
\<close>

fun get_prop :: "json \<Rightarrow> string \<Rightarrow> json" where
  "get_prop (JObj kvs) k = (case map_of (rev kvs) k of None \<Rightarrow> JNull | Some v \<Rightarrow> v)"
| "get_prop v k = JNull"

text \<open>
  A value of the interface \<^verbatim>\<open>FitbitTokenData\<close>: the six required fields and the
  optional \<^verbatim>\<open>expires_at\<close>, which is left out of the object when absent.
\<close>

definition FitbitTokenData ::
  "string \<Rightarrow> string \<Rightarrow> int \<Rightarrow> string option \<Rightarrow> string \<Rightarrow> string \<Rightarrow> string \<Rightarrow> json" where
  "FitbitTokenData access_token refresh_token expires_in expires_at scope token_type user_id =
    JObj ([(''access_token'', JStr access_token), (''refresh_token'', JStr refresh_token),
           (''expires_in'', JNum expires_in)]
          @ (case expires_at of None \<Rightarrow> [] | Some e \<Rightarrow> [(''expires_at'', JStr e)])
          @ [(''scope'', JStr scope), (''token_type'', JStr token_type),
             (''user_id'', JStr user_id)])"

section \<open>\<^verbatim>\<open>JSON.stringify(value, null, 2)\<close>\<close>

definition digit_char :: "nat \<Rightarrow> char" where
  "digit_char d = char_of (48 + d)"

fun digits :: "nat \<Rightarrow> string" where
  "digits n = (if n < 10 then [digit_char n] else digits (n div 10) @ [digit_char (n mod 10)])"

declare digits.simps [simp del]

definition show_int :: "int \<Rightarrow> string" where
  "show_int i = (if i < 0 then CHR ''-'' # digits (nat (- i)) else digits (nat i))"

definition hex_char :: "nat \<Rightarrow> char" where
  "hex_char d = (if d < 10 then char_of (48 + d) else char_of (87 + d))"

text \<open>
  \<^verbatim>\<open>QuoteJSONString\<close>: the double quote, the backslash and the control characters
  are escaped, every other code unit is copied.
\<close>

definition quote_char :: "char \<Rightarrow> string" where
  "quote_char c =
    (if c = CHR 0x22 then [CHR 0x5C, CHR 0x22]
     else if c = CHR 0x5C then [CHR 0x5C, CHR 0x5C]
     else if c = CHR 0x08 then [CHR 0x5C, CHR ''b'']
     else if c = CHR 0x0C then [CHR 0x5C, CHR ''f'']
     else if c = CHR 0x0A then [CHR 0x5C, CHR ''n'']
     else if c = CHR 0x0D then [CHR 0x5C, CHR ''r'']
     else if c = CHR 0x09 then [CHR 0x5C, CHR ''t'']
     else if (of_char c :: nat) < 32 then
       [CHR 0x5C, CHR ''u'', CHR ''0'', CHR ''0'',
        hex_char ((of_char c :: nat) div 16), hex_char ((of_char c :: nat) mod 16)]
     else [c])"

definition quote :: "string \<Rightarrow> string" where
  "quote s = CHR 0x22 # concat (map quote_char s) @ [CHR 0x22]"

definition pad :: "nat \<Rightarrow> string" where
  "pad n = replicate n (CHR '' '')"

text \<open>
  \<open>stringify_at ind v\<close> prints \<open>v\<close> whose own line is indented by \<open>ind\<close>
  spaces; \<open>elems\<close> and \<open>members\<close> print a non-empty body up to and including
  the closing bracket.
\<close>

fun stringify_at :: "nat \<Rightarrow> json \<Rightarrow> string"
  and elems :: "nat \<Rightarrow> json list \<Rightarrow> string"
  and members :: "nat \<Rightarrow> (string \<times> json) list \<Rightarrow> string" where
  "stringify_at ind JNull = ''null''"
| "stringify_at ind (JBool b) = (if b then ''true'' else ''false'')"
| "stringify_at ind (JNum n) = show_int n"
| "stringify_at ind (JStr s) = quote s"
| "stringify_at ind (JArr []) = ''[]''"
| "stringify_at ind (JArr (x # xs)) = CHR ''['' # CHR 0x0A # pad (ind + 2) @ elems ind (x # xs)"
| "stringify_at ind (JObj []) = ''{}''"
| "stringify_at ind (JObj (m # ms)) = CHR ''{'' # CHR 0x0A # pad (ind + 2) @ members ind (m # ms)"
| "elems ind [] = []"
| "elems ind [x] = stringify_at (ind + 2) x @ CHR 0x0A # pad ind @ '']''"
| "elems ind (x # y # ys) =
     stringify_at (ind + 2) x @ CHR '','' # CHR 0x0A # pad (ind + 2) @ elems ind (y # ys)"
| "members ind [] = []"
| "members ind [(k, v)] =
     quote k @ CHR '':'' # CHR '' '' # stringify_at (ind + 2) v @ CHR 0x0A # pad ind @ ''}''"
| "members ind ((k, v) # m # ms) =
     quote k @ CHR '':'' # CHR '' '' # stringify_at (ind + 2) v
       @ CHR '','' # CHR 0x0A # pad (ind + 2) @ members ind (m # ms)"

definition JSON_stringify :: "json \<Rightarrow> string" where
  "JSON_stringify v = stringify_at 0 v"

section \<open>\<^verbatim>\<open>JSON.parse\<close>\<close>

definition is_ws :: "char \<Rightarrow> bool" where
  "is_ws c = (c = CHR '' '' \<or> c = CHR 0x09 \<or> c = CHR 0x0A \<or> c = CHR 0x0D)"

definition skip_ws :: "string \<Rightarrow> string" where
  "skip_ws cs = dropWhile is_ws cs"

definition is_digit :: "char \<Rightarrow> bool" where
  "is_digit c = (48 \<le> (of_char c :: nat) \<and> (of_char c :: nat) \<le> 57)"

definition digit_val :: "char \<Rightarrow> nat" where
  "digit_val c = of_char c - 48"

definition nat_of_digits :: "string \<Rightarrow> nat" where
  "nat_of_digits ds = foldl (\<lambda>a c. 10 * a + digit_val c) 0 ds"

text \<open>
  A number is an optional minus sign and a digit sequence without a leading
  zero. A fraction or an exponent is outside the modelled fragment and is
  refused.
\<close>

definition parse_number :: "string \<Rightarrow> (json \<times> string) option" where
  "parse_number cs =
    (let neg = (case cs of [] \<Rightarrow> False | c # _ \<Rightarrow> c = CHR ''-'');
         cs1 = (if neg then tl cs else cs);
         ds = takeWhile is_digit cs1;
         r = dropWhile is_digit cs1
     in if ds = [] then None
        else if hd ds = CHR ''0'' \<and> 1 < length ds then None
        else if (case r of [] \<Rightarrow> False | c # _ \<Rightarrow> c = CHR ''.'' \<or> c = CHR ''e'' \<or> c = CHR ''E'')
          then None
        else Some (JNum (if neg then - int (nat_of_digits ds) else int (nat_of_digits ds)), r))"

definition hex_val :: "char \<Rightarrow> nat option" where
  "hex_val c =
    (let n = (of_char c :: nat)
     in if 48 \<le> n \<and> n \<le> 57 then Some (n - 48)
        else if 97 \<le> n \<and> n \<le> 102 then Some (n - 87)
        else if 65 \<le> n \<and> n \<le> 70 then Some (n - 55)
        else None)"

definition unescape :: "char \<Rightarrow> char option" where
  "unescape e =
    (if e = CHR 0x22 then Some (CHR 0x22)
     else if e = CHR 0x5C then Some (CHR 0x5C)
     else if e = CHR ''/'' then Some (CHR ''/'')
     else if e = CHR ''b'' then Some (CHR 0x08)
     else if e = CHR ''f'' then Some (CHR 0x0C)
     else if e = CHR ''n'' then Some (CHR 0x0A)
     else if e = CHR ''r'' then Some (CHR 0x0D)
     else if e = CHR ''t'' then Some (CHR 0x09)
     else None)"

definition hex4 :: "char \<Rightarrow> char \<Rightarrow> char \<Rightarrow> char \<Rightarrow> nat option" where
  "hex4 a b c d =
    (case (hex_val a, hex_val b, hex_val c, hex_val d) of
       (Some w, Some x, Some y, Some z) \<Rightarrow> Some (((w * 16 + x) * 16 + y) * 16 + z)
     | _ \<Rightarrow> None)"

text \<open>
  The characters of a string literal after its opening quote, up to the closing
  one. A raw control character is a syntax error; \<^verbatim>\<open>\uXXXX\<close> above 255 is
  outside the modelled fragment and is refused.
\<close>

fun parse_chars :: "string \<Rightarrow> (string \<times> string) option" where
  "parse_chars [] = None"
| "parse_chars (c # cs) =
    (if c = CHR 0x22 then Some ([], cs)
     else if c = CHR 0x5C then
       (case cs of
          [] \<Rightarrow> None
        | e # cs1 \<Rightarrow>
            if e = CHR ''u'' then
              (case cs1 of
                 h1 # h2 # h3 # h4 # cs2 \<Rightarrow>
                   (case hex4 h1 h2 h3 h4 of
                      None \<Rightarrow> None
                    | Some n \<Rightarrow>
                        if n < 256 then
                          (case parse_chars cs2 of
                             None \<Rightarrow> None
                           | Some (s, r) \<Rightarrow> Some (char_of n # s, r))
                        else None)
               | _ \<Rightarrow> None)
            else
              (case unescape e of
                 None \<Rightarrow> None
               | Some ch \<Rightarrow>
                   (case parse_chars cs1 of
                      None \<Rightarrow> None
                    | Some (s, r) \<Rightarrow> Some (ch # s, r))))
     else if (of_char c :: nat) < 32 then None
     else (case parse_chars cs of
             None \<Rightarrow> None
           | Some (s, r) \<Rightarrow> Some (c # s, r)))"

definition expect :: "string \<Rightarrow> json \<Rightarrow> string \<Rightarrow> (json \<times> string) option" where
  "expect lit v cs =
    (if take (length lit) cs = lit then Some (v, drop (length lit) cs) else None)"

text \<open>
  Recursive descent. The first argument bounds the nesting of calls; every
  second call consumes a character, so \<open>JSON_parse\<close> starts it at twice the
  length of the text.
\<close>

fun parse_value :: "nat \<Rightarrow> string \<Rightarrow> (json \<times> string) option"
  and parse_elems :: "nat \<Rightarrow> string \<Rightarrow> (json list \<times> string) option"
  and parse_members :: "nat \<Rightarrow> string \<Rightarrow> ((string \<times> json) list \<times> string) option" where
  "parse_value 0 cs = None"
| "parse_value (Suc n) cs =
    (case skip_ws cs of
       [] \<Rightarrow> None
     | c # r \<Rightarrow>
         if c = CHR ''n'' then expect ''null'' JNull (c # r)
         else if c = CHR ''t'' then expect ''true'' (JBool True) (c # r)
         else if c = CHR ''f'' then expect ''false'' (JBool False) (c # r)
         else if c = CHR 0x22 then
           (case parse_chars r of None \<Rightarrow> None | Some (s, r1) \<Rightarrow> Some (JStr s, r1))
         else if c = CHR ''['' then
           (case skip_ws r of
              [] \<Rightarrow> None
            | d # r1 \<Rightarrow>
                if d = CHR '']'' then Some (JArr [], r1)
                else (case parse_elems n (d # r1) of
                        None \<Rightarrow> None
                      | Some (vs, r2) \<Rightarrow> Some (JArr vs, r2)))
         else if c = CHR ''{'' then
           (case skip_ws r of
              [] \<Rightarrow> None
            | d # r1 \<Rightarrow>
                if d = CHR ''}'' then Some (JObj [], r1)
                else (case parse_members n (d # r1) of
                        None \<Rightarrow> None
                      | Some (ms, r2) \<Rightarrow> Some (JObj ms, r2)))
         else parse_number (c # r))"
| "parse_elems 0 cs = None"
| "parse_elems (Suc n) cs =
    (case parse_value n cs of
       None \<Rightarrow> None
     | Some (v, r) \<Rightarrow>
         (case skip_ws r of
            [] \<Rightarrow> None
          | c # r1 \<Rightarrow>
              if c = CHR '']'' then Some ([v], r1)
              else if c = CHR '','' then
                (case parse_elems n r1 of
                   None \<Rightarrow> None
                 | Some (vs, r2) \<Rightarrow> Some (v # vs, r2))
              else None))"
| "parse_members 0 cs = None"
| "parse_members (Suc n) cs =
    (case skip_ws cs of
       [] \<Rightarrow> None
     | q # r \<Rightarrow>
         if q = CHR 0x22 then
           (case parse_chars r of
              None \<Rightarrow> None
            | Some (k, r1) \<Rightarrow>
                (case skip_ws r1 of
                   [] \<Rightarrow> None
                 | c # r2 \<Rightarrow>
                     if c = CHR '':'' then
                       (case parse_value n r2 of
                          None \<Rightarrow> None
                        | Some (v, r3) \<Rightarrow>
                            (case skip_ws r3 of
                               [] \<Rightarrow> None
                             | d # r4 \<Rightarrow>
                                 if d = CHR ''}'' then Some ([(k, v)], r4)
                                 else if d = CHR '','' then
                                   (case parse_members n r4 of
                                      None \<Rightarrow> None
                                    | Some (ms, r5) \<Rightarrow> Some ((k, v) # ms, r5))
                                 else None))
                     else None))
         else None)"

definition JSON_parse :: "string \<Rightarrow> json option" where
  "JSON_parse s =
    (case parse_value (2 * length s + 2) s of
       None \<Rightarrow> None
     | Some (v, r) \<Rightarrow> if skip_ws r = [] then Some v else None)"

section \<open>Module state and environment\<close>

text \<open>
  The three module-level variables, the listeners created so far (\<open>oauthServer\<close>
  holds the index of one of them) and the content of the file at
  \<^verbatim>\<open>TOKEN_FILE_PATH\<close> (\<open>None\<close>: no such file). A listener is \<open>Binding\<close> from
  \<^verbatim>\<open>app.listen\<close> until its \<^verbatim>\<open>listening\<close> or \<^verbatim>\<open>error\<close> event, \<open>Closing\<close> from
  \<^verbatim>\<open>close(cb)\<close> until its \<^verbatim>\<open>close\<close> event, with the callbacks that wait for
  that event: \<open>LogMissingCode\<close> only logs, \<open>LogAndClear\<close> logs and sets
  \<open>oauthServer\<close> to null.

  Every function of the module runs to its end as one step: what another call
  could do while this one waits at an \<^verbatim>\<open>await\<close> is not modelled. A function
  returns its result, the new state and the effects it had, in order.
\<close>

datatype close_callback = LogMissingCode | LogAndClear

datatype server_phase = Binding | Listening | Closing "close_callback list" | Closed

record auth_state =
  accessToken :: json
  tokenData :: json
  oauthServer :: "nat option"
  servers :: "server_phase list"
  token_file :: "string option"

definition initial_state :: auth_state where
  "initial_state =
    \<lparr>accessToken = JNull, tokenData = JNull, oauthServer = None, servers = [], token_file = None\<rparr>"

text \<open>
  What a thrown value is to the specification. The module itself has one
  \<^verbatim>\<open>catch\<close> clause per \<^verbatim>\<open>try\<close> and never inspects what was thrown.
\<close>

datatype oauth_error = ExchangeError | RefreshError | TransientError

datatype 'a outcome = Returns 'a | Throws oauth_error

text \<open>
  How the platform and the OAuth library answer during one operation:
  \<open>Date_of v\<close> is the time value of \<^verbatim>\<open>new Date(v)\<close> (\<open>None\<close>: an invalid date),
  \<open>now\<close> that of \<^verbatim>\<open>new Date()\<close>; \<open>lib_expired\<close> is the answer of
  \<^verbatim>\<open>createToken(tokenData).expired()\<close>, \<open>lib_refresh\<close> that of \<^verbatim>\<open>refresh()\<close>,
  \<open>lib_getToken\<close> that of \<^verbatim>\<open>getToken(tokenParams)\<close>; the remaining fields say
  whether \<^verbatim>\<open>fs.writeFile\<close>, \<^verbatim>\<open>fs.readFile\<close> and \<^verbatim>\<open>open\<close> succeed.
\<close>

record world =
  Date_of :: "json \<Rightarrow> int option"
  now :: int
  lib_expired :: "bool outcome"
  lib_refresh :: "json outcome"
  lib_getToken :: "json outcome"
  write_ok :: bool
  read_ok :: bool
  open_ok :: bool

record config =
  client_id :: string
  client_secret :: string

datatype effect =
    Log string
  | WriteFile string
  | ReadFile
  | Refresh json
  | GetToken string
  | Listen nat
  | OpenBrowser string
  | CloseServer nat

record response =
  status :: nat
  body :: string

definition TOKEN_FILE_PATH :: string where
  "TOKEN_FILE_PATH = ''.fitbit-token.json''"

definition REDIRECT_URI :: string where
  "REDIRECT_URI = ''http://localhost:3000/callback''"

definition PORT :: nat where
  "PORT = 3000"

section \<open>Token store\<close>

text \<open>
  \<open>saveTokenToFile\<close> writes the printed record and logs; a failing write is
  caught and logged. \<open>loadTokenFromFile\<close> returns null when the file does not
  exist, cannot be read or does not parse, and what \<^verbatim>\<open>JSON.parse\<close> gives
  otherwise.
\<close>

definition saveTokenToFile :: "world \<Rightarrow> json \<Rightarrow> auth_state \<Rightarrow> auth_state \<times> effect list" where
  "saveTokenToFile w t s =
    (if write_ok w then
       (s\<lparr>token_file := Some (JSON_stringify t)\<rparr>,
        [WriteFile (JSON_stringify t), Log (''Token saved to '' @ TOKEN_FILE_PATH)])
     else (s, [WriteFile (JSON_stringify t), Log ''Error saving token to file: '']))"

definition loadTokenFromFile :: "world \<Rightarrow> auth_state \<Rightarrow> json \<times> effect list" where
  "loadTokenFromFile w s =
    (case token_file s of
       None \<Rightarrow> (JNull, [Log (''Token file not found at '' @ TOKEN_FILE_PATH)])
     | Some data \<Rightarrow>
         if read_ok w then
           (case JSON_parse data of
              None \<Rightarrow> (JNull, [ReadFile, Log ''Error loading token from file: ''])
            | Some parsedData \<Rightarrow> (parsedData, [ReadFile, Log ''Token loaded from file successfully'']))
         else (JNull, [ReadFile, Log ''Error loading token from file: '']))"

section \<open>Token lifecycle\<close>

text \<open>The test \<^verbatim>\<open>tokenData.expires_at && new Date(tokenData.expires_at) < new Date()\<close>.\<close>

definition is_expired :: "world \<Rightarrow> json \<Rightarrow> bool" where
  "is_expired w t =
    (truthy (get_prop t ''expires_at'') \<and>
     (case Date_of w (get_prop t ''expires_at'') of None \<Rightarrow> False | Some e \<Rightarrow> e < now w))"

text \<open>
  \<open>getAccessToken\<close>: null when either variable is falsy; for an expired record
  the \<^verbatim>\<open>try\<close> block, in which the library is asked whether the token is expired
  and, if so, to refresh it, the new record then being stored and saved;
  whatever is thrown in the block clears both variables. In every other case
  \<open>accessToken\<close> is returned. \<open>initializeAuth\<close> assigns what it loaded to
  \<open>tokenData\<close> and continues in the same way when the loaded value has an
  \<^verbatim>\<open>access_token\<close>.
\<close>

definition getAccessToken :: "world \<Rightarrow> auth_state \<Rightarrow> json \<times> auth_state \<times> effect list" where
  "getAccessToken w s =
    (if \<not> truthy (tokenData s) \<or> \<not> truthy (accessToken s) then (JNull, s, [])
     else if is_expired w (tokenData s) then
       (case lib_expired w of
          Throws e \<Rightarrow>
            (JNull, s\<lparr>accessToken := JNull, tokenData := JNull\<rparr>,
             [Log ''Token is expired. Attempting to refresh...'', Log ''Failed to refresh token:''])
        | Returns False \<Rightarrow>
            (accessToken s, s, [Log ''Token is expired. Attempting to refresh...''])
        | Returns True \<Rightarrow>
            (case lib_refresh w of
               Throws e \<Rightarrow>
                 (JNull, s\<lparr>accessToken := JNull, tokenData := JNull\<rparr>,
                  [Log ''Token is expired. Attempting to refresh...'', Refresh (tokenData s),
                   Log ''Failed to refresh token:''])
             | Returns token \<Rightarrow>
                 (let s1 = s\<lparr>accessToken := get_prop token ''access_token'', tokenData := token\<rparr>;
                      (s2, es) = saveTokenToFile w token s1
                  in (accessToken s2, s2,
                      [Log ''Token is expired. Attempting to refresh...'', Refresh (tokenData s)]
                        @ es @ [Log ''Token refreshed and saved successfully.'']))))
     else (accessToken s, s, []))"

definition initializeAuth :: "world \<Rightarrow> auth_state \<Rightarrow> auth_state \<times> effect list" where
  "initializeAuth w s =
    (let (loaded, es0) = loadTokenFromFile w s;
         s1 = s\<lparr>tokenData := loaded\<rparr>;
         es1 = Log ''Auth initialized. Checking for persisted token...'' # es0
     in if truthy loaded \<and> truthy (get_prop loaded ''access_token'') then
          (let s2 = s1\<lparr>accessToken := get_prop loaded ''access_token''\<rparr>;
               es2 = es1 @ [Log ''Persisted access token loaded successfully.'']
           in if is_expired w loaded then
                (case lib_expired w of
                   Throws e \<Rightarrow>
                     (s2\<lparr>accessToken := JNull, tokenData := JNull\<rparr>,
                      es2 @ [Log ''Token is expired. Attempting to refresh...'',
                             Log ''Failed to refresh token:''])
                 | Returns False \<Rightarrow>
                     (s2, es2 @ [Log ''Token is expired. Attempting to refresh...''])
                 | Returns True \<Rightarrow>
                     (case lib_refresh w of
                        Throws e \<Rightarrow>
                          (s2\<lparr>accessToken := JNull, tokenData := JNull\<rparr>,
                           es2 @ [Log ''Token is expired. Attempting to refresh...'', Refresh loaded,
                                  Log ''Failed to refresh token:''])
                      | Returns token \<Rightarrow>
                          (let s3 = s2\<lparr>accessToken := get_prop token ''access_token'',
                                       tokenData := token\<rparr>;
                               (s4, es) = (if truthy token then saveTokenToFile w token s3
                                           else (s3, []))
                           in (s4, es2 @ [Log ''Token is expired. Attempting to refresh...'',
                                          Refresh loaded]
                                    @ es @ [Log ''Token refreshed and saved successfully.'']))))
              else (s2, es2))
        else (s1, es1 @ [Log ''No persisted access token found or token data is invalid.'']))"

section \<open>Callback listener\<close>

text \<open>
  \<open>startAuthorizationFlow\<close> creates the listener and stores it in
  \<open>oauthServer\<close>; \<open>on_listening\<close>, \<open>on_error\<close> and \<open>on_close\<close> are what the
  module does at the listener's \<^verbatim>\<open>listening\<close>, \<^verbatim>\<open>error\<close> and \<^verbatim>\<open>close\<close>
  events, \<open>auth_handler\<close> and \<open>callback_handler\<close> are its two routes. The
  handlers read and write the variable \<open>oauthServer\<close>, not the listener that
  received the event.
\<close>

definition startAuthorizationFlow :: "config \<Rightarrow> auth_state \<Rightarrow> auth_state \<times> effect list" where
  "startAuthorizationFlow c s =
    (if oauthServer s \<noteq> None then (s, [Log ''OAuth server is already running.''])
     else if client_id c = [] \<or> client_secret c = [] then
       (s, [Log ''Error: Fitbit Client ID or Secret not found. Check environment variables.''])
     else
       (s\<lparr>servers := servers s @ [Binding], oauthServer := Some (length (servers s))\<rparr>,
        [Listen PORT]))"

definition authUrl :: string where
  "authUrl = ''http://localhost:3000/auth''"

definition on_listening :: "world \<Rightarrow> nat \<Rightarrow> auth_state \<Rightarrow> auth_state \<times> effect list" where
  "on_listening w h s =
    (if h < length (servers s) \<and> servers s ! h = Binding then
       (s\<lparr>servers := (servers s)[h := Listening]\<rparr>,
        [Log (replicate 68 (CHR ''-'')),
         Log ''ACTION REQUIRED: Fitbit Authorization Needed'',
         Log ''Attempting to open authorization page in your browser:'',
         Log authUrl,
         Log (''If the browser doesn'' @ [CHR 0x27] @ ''t open, please navigate there manually.''),
         Log ''Waiting for authorization callback...'',
         Log (replicate 68 (CHR ''-'')),
         OpenBrowser authUrl,
         Log (if open_ok w then ''Browser opened (or attempted).''
              else ''Failed to open browser automatically:'')])
     else (s, []))"

definition on_error :: "nat \<Rightarrow> auth_state \<Rightarrow> auth_state \<times> effect list" where
  "on_error h s =
    (if h < length (servers s) then
       (s\<lparr>servers := (servers s)[h := Closed], oauthServer := None\<rparr>,
        [Log ''Error starting temporary OAuth server:''])
     else (s, []))"

text \<open>\<^verbatim>\<open>server.close(cb)\<close>: the listener stops accepting and \<open>cb\<close> waits for its \<^verbatim>\<open>close\<close> event.\<close>

definition close_server :: "nat \<Rightarrow> close_callback \<Rightarrow> server_phase list \<Rightarrow> server_phase list" where
  "close_server h cb ps =
    (if h < length ps then
       ps[h := (case ps ! h of Closing cbs \<Rightarrow> Closing (cbs @ [cb]) | _ \<Rightarrow> Closing [cb])]
     else ps)"

fun run_close_callback :: "close_callback \<Rightarrow> auth_state \<times> effect list \<Rightarrow> auth_state \<times> effect list" where
  "run_close_callback LogMissingCode (s, es) =
     (s, es @ [Log ''OAuth server closed due to missing code.''])"
| "run_close_callback LogAndClear (s, es) =
     (s\<lparr>oauthServer := None\<rparr>, es @ [Log ''OAuth server closed.''])"

definition on_close :: "nat \<Rightarrow> auth_state \<Rightarrow> auth_state \<times> effect list" where
  "on_close h s =
    (if h < length (servers s) then
       (case servers s ! h of
          Closing cbs \<Rightarrow> fold run_close_callback cbs (s\<lparr>servers := (servers s)[h := Closed]\<rparr>, [])
        | _ \<Rightarrow> (s, []))
     else (s, []))"

definition auth_handler :: "string \<Rightarrow> response \<times> effect list" where
  "auth_handler authorizationUri =
    (\<lparr>status = 302, body = authorizationUri\<rparr>, [Log ''Redirecting to Fitbit for authorization...''])"

text \<open>The \<^verbatim>\<open>finally\<close> block of the callback route.\<close>

definition shut_down :: "auth_state \<Rightarrow> auth_state \<times> effect list" where
  "shut_down s =
    (case oauthServer s of
       None \<Rightarrow> (s, [])
     | Some h \<Rightarrow>
         (s\<lparr>servers := close_server h LogAndClear (servers s)\<rparr>,
          [Log ''Shutting down temporary OAuth server...'', CloseServer h]))"

text \<open>
  \<open>code\<close> is \<^verbatim>\<open>req.query.code\<close>, \<open>None\<close> when the query has no such parameter.
  The log of the provider's error body, written when the thrown value carries
  a response, is left out.
\<close>

definition missing_code :: "auth_state \<Rightarrow> response \<times> auth_state \<times> effect list" where
  "missing_code s =
    (case oauthServer s of
       None \<Rightarrow>
         (\<lparr>status = 400, body = ''Error: Authorization code missing.''\<rparr>, s,
          [Log ''Authorization code missing in callback.''])
     | Some h \<Rightarrow>
         (\<lparr>status = 400, body = ''Error: Authorization code missing.''\<rparr>,
          s\<lparr>servers := close_server h LogMissingCode (servers s), oauthServer := None\<rparr>,
          [Log ''Authorization code missing in callback.'', CloseServer h]))"

definition exchange_code ::
  "world \<Rightarrow> string \<Rightarrow> auth_state \<Rightarrow> response \<times> auth_state \<times> effect list" where
  "exchange_code w code s =
    (case lib_getToken w of
       Returns token \<Rightarrow>
         (let s1 = s\<lparr>accessToken := get_prop token ''access_token'', tokenData := token\<rparr>;
              (s2, es) = (if truthy token then
                            (let (s', es') = saveTokenToFile w token s1
                             in (s', es' @ [Log ''Token data has been persisted to file'']))
                          else (s1, []));
              (s3, fs) = shut_down s2
          in (\<lparr>status = 200,
               body = ''Authorization successful! You can close this window. The MCP Server is now authenticated.''\<rparr>,
              s3,
              [Log ''Received authorization code. Exchanging for token...'', GetToken code,
               Log ''Access Token received successfully!''] @ es @ fs))
     | Throws e \<Rightarrow>
         (let (s3, fs) = shut_down s
          in (\<lparr>status = 500, body = ''Error obtaining access token. Check MCP server logs.''\<rparr>,
              s3,
              [Log ''Received authorization code. Exchanging for token...'', GetToken code,
               Log ''Error obtaining access token:''] @ fs)))"

definition callback_handler ::
  "world \<Rightarrow> string option \<Rightarrow> auth_state \<Rightarrow> response \<times> auth_state \<times> effect list" where
  "callback_handler w code s =
    (case code of
       None \<Rightarrow> missing_code s
     | Some c \<Rightarrow> if c = [] then missing_code s else exchange_code w c s)"

section \<open>Runs of the module\<close>

text \<open>The calls the host makes and the events the listener delivers, one after the other.\<close>

datatype event =
    GetAccessToken world
  | InitializeAuth world
  | StartAuthorizationFlow config
  | ListeningEvent world nat
  | ErrorEvent nat
  | CloseEvent nat
  | CallbackRequest world "string option"

fun step :: "event \<Rightarrow> auth_state \<Rightarrow> auth_state" where
  "step (GetAccessToken w) s = fst (snd (getAccessToken w s))"
| "step (InitializeAuth w) s = fst (initializeAuth w s)"
| "step (StartAuthorizationFlow c) s = fst (startAuthorizationFlow c s)"
| "step (ListeningEvent w h) s = fst (on_listening w h s)"
| "step (ErrorEvent h) s = fst (on_error h s)"
| "step (CloseEvent h) s = fst (on_close h s)"
| "step (CallbackRequest w code) s = fst (snd (callback_handler w code s))"

fun run :: "event list \<Rightarrow> auth_state \<Rightarrow> auth_state" where
  "run [] s = s"
| "run (ev # evs) s = run evs (step ev s)"


definition refresh_attempts :: "effect list \<Rightarrow> nat" where
  "refresh_attempts es = length (filter (\<lambda>e. case e of Refresh t \<Rightarrow> True | _ \<Rightarrow> False) es)"

definition exchange_attempts :: "effect list \<Rightarrow> nat" where
  "exchange_attempts es = length (filter (\<lambda>e. case e of GetToken c \<Rightarrow> True | _ \<Rightarrow> False) es)"

text \<open>The two states the data model allows: a record with its access token, or nothing.\<close>

definition carries_access_token :: "json \<Rightarrow> bool" where
  "carries_access_token t = (truthy t \<and> truthy (get_prop t ''access_token''))"

definition token_present :: "auth_state \<Rightarrow> bool" where
  "token_present s =
    (carries_access_token (tokenData s) \<and> accessToken s = get_prop (tokenData s) ''access_token'')"

definition token_absent :: "auth_state \<Rightarrow> bool" where
  "token_absent s = (tokenData s = JNull \<and> accessToken s = JNull)"

definition coherent :: "auth_state \<Rightarrow> bool" where
  "coherent s = (token_present s \<or> token_absent s)"

section \<open>Sample inputs\<close>

definition sample_Date_of :: "json \<Rightarrow> int option" where
  "sample_Date_of v =
    (case v of
       JNum n \<Rightarrow> Some n
     | JStr x \<Rightarrow> if x = ''2024-01-01T00:00:00.000Z'' then Some 1704067200000
                 else if x = ''2024-01-01T08:00:00.000Z'' then Some 1704096000000
                 else None
     | _ \<Rightarrow> None)"

definition old_token :: json where
  "old_token =
    FitbitTokenData ''old-access'' ''old-refresh'' 28800 (Some ''2024-01-01T00:00:00.000Z'')
      ''weight sleep'' ''Bearer'' ''ABC123''"

definition new_token :: json where
  "new_token =
    FitbitTokenData ''new-access'' ''new-refresh'' 28800 (Some ''2024-01-01T08:00:00.000Z'')
      ''weight sleep'' ''Bearer'' ''ABC123''"

definition undated_token :: json where
  "undated_token =
    FitbitTokenData ''old-access'' ''old-refresh'' 28800 None ''weight sleep'' ''Bearer'' ''ABC123''"

definition holding :: "json \<Rightarrow> auth_state" where
  "holding t =
    \<lparr>accessToken = get_prop t ''access_token'', tokenData = t, oauthServer = None, servers = [],
     token_file = None\<rparr>"

text \<open>A world whose clock stands at \<open>t\<close> and in which every call succeeds,
  the refresh and the exchange delivering \<open>new_token\<close>.\<close>

definition world_at :: "int \<Rightarrow> world" where
  "world_at t =
    \<lparr>Date_of = sample_Date_of, now = t, lib_expired = Returns True,
     lib_refresh = Returns new_token, lib_getToken = Returns new_token,
     write_ok = True, read_ok = True, open_ok = True\<rparr>"

definition configured :: config where
  "configured = \<lparr>client_id = ''23ABCD'', client_secret = ''s3cr3t''\<rparr>"

definition listening_state :: auth_state where
  "listening_state = run [StartAuthorizationFlow configured, ListeningEvent (world_at 0) 0] initial_state"



definition rejecting_world :: world where
  "rejecting_world = (world_at 0)\<lparr>lib_getToken := Throws ExchangeError\<rparr>"

definition unconfigured :: config where
  "unconfigured = \<lparr>client_id = [], client_secret = ''s3cr3t''\<rparr>"

definition empty_object_file :: auth_state where
  "empty_object_file = initial_state\<lparr>token_file := Some ''{}''\<rparr>"

definition sample_run :: "event list" where
  "sample_run =
    [InitializeAuth (world_at 0), StartAuthorizationFlow configured, ListeningEvent (world_at 0) 0,
     CallbackRequest (world_at 0) (Some ''abc''), CloseEvent 0,
     GetAccessToken (world_at 1704099600000)]"




section \<open>Further notions used in the statements\<close>

definition is_closing :: "server_phase \<Rightarrow> bool" where
  "is_closing p = (case p of Closing cbs \<Rightarrow> True | _ \<Rightarrow> False)"

text \<open>
  An event is well supplied when the records that the provider and the token
  file hand to it carry an access token, and when a load that finds nothing
  happens in the absent state.
\<close>

definition delivers_access_token :: "json outcome \<Rightarrow> bool" where
  "delivers_access_token r = (case r of Returns t \<Rightarrow> carries_access_token t | Throws e \<Rightarrow> True)"

fun well_supplied :: "event \<Rightarrow> auth_state \<Rightarrow> bool" where
  "well_supplied (GetAccessToken w) s = delivers_access_token (lib_refresh w)"
| "well_supplied (InitializeAuth w) s =
     (delivers_access_token (lib_refresh w) \<and>
      (carries_access_token (fst (loadTokenFromFile w s)) \<or>
       fst (loadTokenFromFile w s) = JNull \<and> token_absent s))"
| "well_supplied (CallbackRequest w code) s = delivers_access_token (lib_getToken w)"
| "well_supplied ev s = True"

fun well_supplied_run :: "event list \<Rightarrow> auth_state \<Rightarrow> bool" where
  "well_supplied_run [] s = True"
| "well_supplied_run (ev # evs) s = (well_supplied ev s \<and> well_supplied_run evs (step ev s))"

text \<open>
  For the round trip of the encoding: what may follow a number, the nesting
  bound that suffices to parse a printed value, and how a printed value starts.
\<close>

fun number_end :: "string \<Rightarrow> bool" where
  "number_end [] = True"
| "number_end (c # cs) = (\<not> is_digit c \<and> c \<noteq> CHR ''.'' \<and> c \<noteq> CHR ''e'' \<and> c \<noteq> CHR ''E'')"

fun fuel :: "json \<Rightarrow> nat"
  and fuel_elems :: "json list \<Rightarrow> nat"
  and fuel_members :: "(string \<times> json) list \<Rightarrow> nat" where
  "fuel (JArr xs) = Suc (fuel_elems xs)"
| "fuel (JObj ms) = Suc (fuel_members ms)"
| "fuel v = 1"
| "fuel_elems [] = 0"
| "fuel_elems (x # xs) = Suc (fuel x + fuel_elems xs)"
| "fuel_members [] = 0"
| "fuel_members ((k, v) # ms) = Suc (fuel v + fuel_members ms)"

fun starts_value :: "string \<Rightarrow> bool" where
  "starts_value [] = False"
| "starts_value (c # cs) = (\<not> is_ws c \<and> c \<noteq> CHR '']'' \<and> c \<noteq> CHR ''}'')"

section \<open>Facts about the sample inputs\<close>

lemma sample_facts:
  "truthy old_token" "truthy (get_prop old_token ''access_token'')"
  "get_prop old_token ''expires_at'' = JStr ''2024-01-01T00:00:00.000Z''"
  "get_prop old_token ''access_token'' = JStr ''old-access''"
  "get_prop new_token ''access_token'' = JStr ''new-access''"
  "truthy undated_token" "get_prop undated_token ''access_token'' = JStr ''old-access''"
  "get_prop undated_token ''expires_at'' = JNull"
  by (simp_all add: old_token_def new_token_def undated_token_def FitbitTokenData_def)

lemma new_token_facts:
  "truthy new_token" "carries_access_token new_token"
  "get_prop new_token ''expires_at'' = JStr ''2024-01-01T08:00:00.000Z''"
  by (simp_all add: new_token_def FitbitTokenData_def carries_access_token_def)

lemma holding_simps:
  "tokenData (holding t) = t" "accessToken (holding t) = get_prop t ''access_token''"
  "oauthServer (holding t) = None" "token_file (holding t) = None" "servers (holding t) = []"
  by (simp_all add: holding_def)

lemma world_at_simps:
  "now (world_at t) = t" "Date_of (world_at t) = sample_Date_of"
  "lib_expired (world_at t) = Returns True" "lib_refresh (world_at t) = Returns new_token"
  "lib_getToken (world_at t) = Returns new_token" "write_ok (world_at t)" "read_ok (world_at t)"
  by (simp_all add: world_at_def)




lemma rejecting_world_simps: "lib_getToken rejecting_world = Throws ExchangeError"
  by (simp add: rejecting_world_def world_at_def)

lemma sample_Date_of_old: "sample_Date_of (JStr ''2024-01-01T00:00:00.000Z'') = Some 1704067200000"
  by (simp add: sample_Date_of_def)

lemma sample_Date_of_new: "sample_Date_of (JStr ''2024-01-01T08:00:00.000Z'') = Some 1704096000000"
  by (simp add: sample_Date_of_def)

lemma listening_state_eq:
  "listening_state =
    \<lparr>accessToken = JNull, tokenData = JNull, oauthServer = Some 0, servers = [Listening],
     token_file = None\<rparr>"
  by (simp add: listening_state_def startAuthorizationFlow_def on_listening_def initial_state_def
      configured_def)

lemma JSON_parse_empty_object: "JSON_parse ''{}'' = Some (JObj [])"
  by code_simp

section \<open>The access token\<close>







text \<open>
  Claim C7. A record whose \<^verbatim>\<open>expires_at\<close> is not in the past (the clock is at or
  before it): \<open>getAccessToken\<close> returns the stored access token, makes no call
  to the library and no write (the list of effects is empty), and leaves the
  variables and the token file as they were.
\<close>

theorem getAccessToken_unexpired:
  assumes "truthy (tokenData s)" and "truthy (accessToken s)"
    and "Date_of w (get_prop (tokenData s) ''expires_at'') = Some e" and "now w \<le> e"
  shows "getAccessToken w s = (accessToken s, s, [])"
  using assms by (simp add: getAccessToken_def is_expired_def)

theorem getAccessToken_unexpired_witness:
  "truthy (tokenData (holding old_token)) \<and> truthy (accessToken (holding old_token))
   \<and> Date_of (world_at 1704000000000) (get_prop (tokenData (holding old_token)) ''expires_at'')
       = Some 1704067200000
   \<and> now (world_at 1704000000000) \<le> 1704067200000
   \<and> getAccessToken (world_at 1704000000000) (holding old_token)
       = (JStr ''old-access'', holding old_token, [])"
  using getAccessToken_unexpired [of "holding old_token" "world_at 1704000000000" 1704067200000]
  by (simp add: holding_simps world_at_simps sample_facts sample_Date_of_old)

text \<open>
  Claim C10. A record whose \<^verbatim>\<open>expires_at\<close> is absent or empty is never taken for
  expired: whatever the clock says, \<open>getAccessToken\<close> returns the stored access
  token without a refresh attempt and without any other effect.
\<close>

theorem getAccessToken_no_expiry:
  assumes "truthy (tokenData s)" and "truthy (accessToken s)"
    and "\<not> truthy (get_prop (tokenData s) ''expires_at'')"
  shows "getAccessToken w s = (accessToken s, s, [])
       \<and> refresh_attempts (snd (snd (getAccessToken w s))) = 0"
  using assms by (simp add: getAccessToken_def is_expired_def refresh_attempts_def)

theorem getAccessToken_no_expiry_witness:
  "truthy (tokenData (holding undated_token)) \<and> truthy (accessToken (holding undated_token))
   \<and> \<not> truthy (get_prop (tokenData (holding undated_token)) ''expires_at'')
   \<and> getAccessToken (world_at 9999999999999) (holding undated_token)
       = (JStr ''old-access'', holding undated_token, [])"
  using getAccessToken_no_expiry [of "holding undated_token" "world_at 9999999999999"]
  by (simp add: holding_simps world_at_simps sample_facts)




section \<open>After a failed refresh\<close>

lemma fold_close_callbacks_keep:
  "servers (fst (fold run_close_callback cbs p)) = servers (fst p)
   \<and> tokenData (fst (fold run_close_callback cbs p)) = tokenData (fst p)
   \<and> accessToken (fst (fold run_close_callback cbs p)) = accessToken (fst p)
   \<and> token_file (fst (fold run_close_callback cbs p)) = token_file (fst p)"
proof (induction cbs arbitrary: p)
  case Nil
  show ?case by simp
next
  case (Cons cb cbs)
  show ?case
    by (cases cb; cases p) (simp_all add: Cons.IH)
qed





section \<open>The listener\<close>

text \<open>
  Claim C8. \<open>startAuthorizationFlow\<close> with a listener already referenced only
  logs: the state, and with it the list of listeners, is unchanged. With no
  listener referenced and the client identifier or secret empty it only logs
  as well, and no listener is created.
\<close>

theorem startAuthorizationFlow_noop:
  "(oauthServer s \<noteq> None \<longrightarrow>
      startAuthorizationFlow c s = (s, [Log ''OAuth server is already running.'']))
   \<and> (oauthServer s = None \<and> (client_id c = [] \<or> client_secret c = []) \<longrightarrow>
      startAuthorizationFlow c s =
        (s, [Log ''Error: Fitbit Client ID or Secret not found. Check environment variables.'']))"
  by (simp add: startAuthorizationFlow_def)

theorem startAuthorizationFlow_noop_witness:
  "oauthServer listening_state \<noteq> None
   \<and> startAuthorizationFlow configured listening_state
        = (listening_state, [Log ''OAuth server is already running.''])
   \<and> oauthServer initial_state = None \<and> client_id unconfigured = []
   \<and> startAuthorizationFlow unconfigured initial_state
        = (initial_state,
           [Log ''Error: Fitbit Client ID or Secret not found. Check environment variables.''])"
  using startAuthorizationFlow_noop [of listening_state configured]
    startAuthorizationFlow_noop [of initial_state unconfigured]
  by (simp add: listening_state_eq initial_state_def unconfigured_def)

lemma close_server_nth:
  "h < length ps \<Longrightarrow>
    close_server h cb ps ! h = Closing ((case ps ! h of Closing cbs \<Rightarrow> cbs | _ \<Rightarrow> []) @ [cb])"
  by (simp add: close_server_def split: server_phase.split)

lemma close_server_length: "length (close_server h cb ps) = length ps"
  by (simp add: close_server_def)

lemma missing_code_state:
  "fst (snd (missing_code s)) =
    (case oauthServer s of None \<Rightarrow> s
     | Some h \<Rightarrow> s\<lparr>servers := close_server h LogMissingCode (servers s), oauthServer := None\<rparr>)"
  by (simp add: missing_code_def split: option.split)

lemma missing_code_response:
  "fst (missing_code s) = \<lparr>status = 400, body = ''Error: Authorization code missing.''\<rparr>"
  by (simp add: missing_code_def split: option.split)

lemma on_close_servers:
  "h < length (servers s) \<Longrightarrow> servers s ! h = Closing cbs \<Longrightarrow>
     servers (fst (on_close h s)) = (servers s)[h := Closed]"
  by (simp add: on_close_def fold_close_callbacks_keep)

text \<open>
  Claim C9. The callback route answers 400 when the code is missing (absent or
  empty), 200 with the success page when the exchange succeeds and 500 when it
  fails. In the missing-code case the reference to the listener is cleared,
  the listener it referred to is closing and is closed once its
  \<^verbatim>\<open>close\<close> event arrives, and the token variables and the token file are
  unchanged.
\<close>

theorem callback_responses:
  "(code = None \<or> code = Some [] \<longrightarrow>
      fst (callback_handler w code s) = \<lparr>status = 400, body = ''Error: Authorization code missing.''\<rparr>
      \<and> oauthServer (step (CallbackRequest w code) s) = None
      \<and> accessToken (step (CallbackRequest w code) s) = accessToken s
      \<and> tokenData (step (CallbackRequest w code) s) = tokenData s
      \<and> token_file (step (CallbackRequest w code) s) = token_file s
      \<and> (\<forall>h. oauthServer s = Some h \<and> h < length (servers s) \<longrightarrow>
            is_closing (servers (step (CallbackRequest w code) s) ! h)
            \<and> servers (step (CloseEvent h) (step (CallbackRequest w code) s)) ! h = Closed))
   \<and> (code = Some c \<and> c \<noteq> [] \<and> lib_getToken w = Returns t \<longrightarrow>
      fst (callback_handler w code s) =
        \<lparr>status = 200,
         body = ''Authorization successful! You can close this window. The MCP Server is now authenticated.''\<rparr>)
   \<and> (code = Some c \<and> c \<noteq> [] \<and> lib_getToken w = Throws e \<longrightarrow>
      fst (callback_handler w code s) =
        \<lparr>status = 500, body = ''Error obtaining access token. Check MCP server logs.''\<rparr>)"
proof -
  have missing: "fst (missing_code s) = \<lparr>status = 400, body = ''Error: Authorization code missing.''\<rparr>
      \<and> oauthServer (fst (snd (missing_code s))) = None
      \<and> accessToken (fst (snd (missing_code s))) = accessToken s
      \<and> tokenData (fst (snd (missing_code s))) = tokenData s
      \<and> token_file (fst (snd (missing_code s))) = token_file s
      \<and> (\<forall>h. oauthServer s = Some h \<and> h < length (servers s) \<longrightarrow>
            is_closing (servers (fst (snd (missing_code s))) ! h)
            \<and> servers (fst (on_close h (fst (snd (missing_code s))))) ! h = Closed)"
  proof (cases "oauthServer s")
    case None
    then show ?thesis
      by (simp add: missing_code_def)
  next
    case (Some h)
    have "is_closing (servers (fst (snd (missing_code s))) ! h)
        \<and> servers (fst (on_close h (fst (snd (missing_code s))))) ! h = Closed"
      if "h < length (servers s)"
    proof -
      let ?s' = "s\<lparr>servers := close_server h LogMissingCode (servers s), oauthServer := None\<rparr>"
      let ?cbs = "(case servers s ! h of Closing cbs \<Rightarrow> cbs | _ \<Rightarrow> []) @ [LogMissingCode]"
      have st: "fst (snd (missing_code s)) = ?s'"
        using Some by (simp add: missing_code_state)
      have nth: "servers ?s' ! h = Closing ?cbs"
        using that by (simp add: close_server_nth)
      have len: "h < length (servers ?s')"
        using that by (simp add: close_server_length)
      have "servers (fst (on_close h ?s')) ! h = Closed"
        unfolding on_close_servers [OF len nth]
        using len by simp
      with nth show ?thesis
        unfolding st by (simp add: is_closing_def)
    qed
    with Some show ?thesis
      by (simp add: missing_code_state missing_code_response)
  qed
  have ok: "fst (exchange_code w c s) =
        \<lparr>status = 200,
         body = ''Authorization successful! You can close this window. The MCP Server is now authenticated.''\<rparr>"
    if "lib_getToken w = Returns t"
    using that by (simp add: exchange_code_def Let_def split: prod.split)
  have bad: "fst (exchange_code w c s) =
        \<lparr>status = 500, body = ''Error obtaining access token. Check MCP server logs.''\<rparr>"
    if "lib_getToken w = Throws e"
    using that by (simp add: exchange_code_def Let_def split: prod.split)
  from missing ok bad show ?thesis
    by (auto simp add: callback_handler_def)
qed

theorem callback_responses_witness:
  "status (fst (callback_handler (world_at 0) None listening_state)) = 400
   \<and> oauthServer (step (CallbackRequest (world_at 0) None) listening_state) = None
   \<and> tokenData (step (CallbackRequest (world_at 0) None) listening_state) = tokenData listening_state
   \<and> oauthServer listening_state = Some 0 \<and> 0 < length (servers listening_state)
   \<and> is_closing (servers (step (CallbackRequest (world_at 0) None) listening_state) ! 0)
   \<and> servers (step (CloseEvent 0) (step (CallbackRequest (world_at 0) None) listening_state)) ! 0
        = Closed
   \<and> lib_getToken (world_at 0) = Returns new_token
   \<and> status (fst (callback_handler (world_at 0) (Some ''abc'') listening_state)) = 200
   \<and> lib_getToken rejecting_world = Throws ExchangeError
   \<and> status (fst (callback_handler rejecting_world (Some ''abc'') listening_state)) = 500"
  using callback_responses [of None "world_at 0" listening_state "''abc''" new_token ExchangeError]
    callback_responses [of "Some ''abc''" "world_at 0" listening_state "''abc''" new_token
      ExchangeError]
    callback_responses [of "Some ''abc''" rejecting_world listening_state "''abc''" new_token
      ExchangeError]
  by (simp add: world_at_simps rejecting_world_simps listening_state_eq)

text \<open>
  A callback that carried a code leaves the reference as it found it and only
  asks the listener it refers to to close.
\<close>

lemma exchange_code_listener:
  "oauthServer (fst (snd (exchange_code w c s))) = oauthServer s
   \<and> servers (fst (snd (exchange_code w c s))) =
       (case oauthServer s of None \<Rightarrow> servers s
        | Some h \<Rightarrow> close_server h LogAndClear (servers s))"
  by (cases "lib_getToken w")
     (simp_all add: exchange_code_def Let_def shut_down_def saveTokenToFile_def
        split: prod.split option.split)

text \<open>
  Claim C5 is not met by the module. A callback with a code arrives at the
  listening server and the exchange succeeds: the answer is 200, the listener
  is closing, but \<open>oauthServer\<close> still refers to it when the handler has
  returned, because the \<^verbatim>\<open>finally\<close> block clears the variable only inside the
  callback of \<^verbatim>\<open>close\<close>. A \<open>startAuthorizationFlow\<close> that follows at once finds
  a listener running and does nothing. The same holds when the exchange fails.
  The reference is cleared when the \<^verbatim>\<open>close\<close> event arrives. The missing-code
  path of the same handler clears the variable right after \<^verbatim>\<open>close\<close>.
\<close>

theorem callback_with_code_keeps_reference:
  "oauthServer listening_state = Some 0
   \<and> fst (callback_handler (world_at 0) (Some ''abc'') listening_state)
        = \<lparr>status = 200,
           body = ''Authorization successful! You can close this window. The MCP Server is now authenticated.''\<rparr>
   \<and> oauthServer (step (CallbackRequest (world_at 0) (Some ''abc'')) listening_state) = Some 0
   \<and> servers (step (CallbackRequest (world_at 0) (Some ''abc'')) listening_state)
        = [Closing [LogAndClear]]
   \<and> startAuthorizationFlow configured
        (step (CallbackRequest (world_at 0) (Some ''abc'')) listening_state)
      = (step (CallbackRequest (world_at 0) (Some ''abc'')) listening_state,
         [Log ''OAuth server is already running.''])
   \<and> oauthServer (step (CallbackRequest rejecting_world (Some ''abc'')) listening_state) = Some 0
   \<and> servers (step (CallbackRequest rejecting_world (Some ''abc'')) listening_state)
        = [Closing [LogAndClear]]
   \<and> oauthServer (step (CloseEvent 0)
        (step (CallbackRequest (world_at 0) (Some ''abc'')) listening_state)) = None
   \<and> oauthServer (step (CallbackRequest (world_at 0) None) listening_state) = None
   \<and> servers (step (CallbackRequest (world_at 0) None) listening_state)
        = [Closing [LogMissingCode]]"
  by (simp add: callback_handler_def exchange_code_def missing_code_def shut_down_def
      saveTokenToFile_def close_server_def on_close_def startAuthorizationFlow_def
      listening_state_eq world_at_simps rejecting_world_simps new_token_facts)

section \<open>The in-memory record\<close>

text \<open>
  Claim C4 does not hold of the module as stated: \<open>initializeAuth\<close> stores what
  it loaded in \<open>tokenData\<close> before it looks for the access token. A token file
  holding the empty object leaves \<open>tokenData\<close> set to a record without any
  field and \<open>accessToken\<close> null.
\<close>

theorem partial_state_counterexample:
  "tokenData (fst (initializeAuth (world_at 0) empty_object_file)) = JObj []
   \<and> accessToken (fst (initializeAuth (world_at 0) empty_object_file)) = JNull
   \<and> \<not> coherent (fst (initializeAuth (world_at 0) empty_object_file))"
  by (simp add: initializeAuth_def loadTokenFromFile_def empty_object_file_def initial_state_def
      JSON_parse_empty_object world_at_simps coherent_def token_present_def token_absent_def
      carries_access_token_def)

lemma coherent_update:
  "carries_access_token t \<Longrightarrow>
     coherent (s\<lparr>accessToken := get_prop t ''access_token'', tokenData := t\<rparr>)"
  by (simp add: coherent_def token_present_def)

lemma coherent_cleared: "coherent (s\<lparr>accessToken := JNull, tokenData := JNull\<rparr>)"
  by (simp add: coherent_def token_absent_def)

lemma coherent_cong:
  "tokenData s' = tokenData s \<Longrightarrow> accessToken s' = accessToken s \<Longrightarrow> coherent s' = coherent s"
  by (simp add: coherent_def token_present_def token_absent_def)

lemma saveTokenToFile_token:
  "tokenData (fst (saveTokenToFile w t s)) = tokenData s
   \<and> accessToken (fst (saveTokenToFile w t s)) = accessToken s"
  by (simp add: saveTokenToFile_def)

lemma coherent_save: "coherent (fst (saveTokenToFile w t s)) = coherent s"
  by (rule coherent_cong) (simp_all add: saveTokenToFile_token)

lemma coherent_getAccessToken:
  assumes "coherent s" and "delivers_access_token (lib_refresh w)"
  shows "coherent (fst (snd (getAccessToken w s)))"
proof (cases "lib_refresh w")
  case (Returns t)
  with assms(2) have "carries_access_token t"
    by (simp add: delivers_access_token_def)
  then have "coherent (fst (saveTokenToFile w t
      (s\<lparr>accessToken := get_prop t ''access_token'', tokenData := t\<rparr>)))"
    by (simp only: coherent_save coherent_update)
  with assms(1) Returns show ?thesis
    by (simp add: getAccessToken_def Let_def case_prod_beta coherent_cleared
        split: outcome.split bool.split)
next
  case (Throws e)
  with assms(1) show ?thesis
    by (simp add: getAccessToken_def coherent_cleared split: outcome.split bool.split)
qed

lemma coherent_shut_down: "coherent (fst (shut_down s)) = coherent s"
  by (rule coherent_cong) (simp_all add: shut_down_def split: option.split)

lemma coherent_missing_code: "coherent (fst (snd (missing_code s))) = coherent s"
  by (rule coherent_cong) (simp_all add: missing_code_def split: option.split)

lemma coherent_exchange_code:
  assumes "coherent s" and "delivers_access_token (lib_getToken w)"
  shows "coherent (fst (snd (exchange_code w c s)))"
proof (cases "lib_getToken w")
  case (Returns t)
  with assms(2) have t: "carries_access_token t"
    by (simp add: delivers_access_token_def)
  then have "truthy t"
    by (simp add: carries_access_token_def)
  moreover have "coherent (fst (shut_down (fst (saveTokenToFile w t
      (s\<lparr>accessToken := get_prop t ''access_token'', tokenData := t\<rparr>)))))"
    using t by (simp only: coherent_shut_down coherent_save coherent_update)
  ultimately show ?thesis
    using Returns by (simp add: exchange_code_def Let_def case_prod_beta)
next
  case (Throws e)
  with assms(1) show ?thesis
    by (simp add: exchange_code_def Let_def case_prod_beta coherent_shut_down)
qed

lemma coherent_initializeAuth:
  assumes "coherent s" and "delivers_access_token (lib_refresh w)"
    and "carries_access_token (fst (loadTokenFromFile w s))
         \<or> fst (loadTokenFromFile w s) = JNull \<and> token_absent s"
  shows "coherent (fst (initializeAuth w s))"
proof -
  obtain loaded es0 where load: "loadTokenFromFile w s = (loaded, es0)"
    by (cases "loadTokenFromFile w s")
  show ?thesis
  proof (cases "carries_access_token loaded")
    case True
    then have tr: "truthy loaded" "truthy (get_prop loaded ''access_token'')"
      by (simp_all add: carries_access_token_def)
    let ?s2 = "s\<lparr>tokenData := loaded, accessToken := get_prop loaded ''access_token''\<rparr>"
    have s2: "coherent ?s2"
      using True by (simp add: coherent_def token_present_def)
    have refreshed: "coherent (fst (saveTokenToFile w t
        (?s2\<lparr>accessToken := get_prop t ''access_token'', tokenData := t\<rparr>)))"
      if "lib_refresh w = Returns t" for t
    proof -
      from that assms(2) have "carries_access_token t"
        by (simp add: delivers_access_token_def)
      then show ?thesis
        by (simp only: coherent_save coherent_update)
    qed
    have truthy_refreshed: "truthy t" if "lib_refresh w = Returns t" for t
      using that assms(2) by (simp add: delivers_access_token_def carries_access_token_def)
    show ?thesis
      using load tr s2 refreshed truthy_refreshed
      by (simp add: initializeAuth_def Let_def case_prod_beta coherent_cleared
          split: outcome.split bool.split)
  next
    case False
    with assms(3) load have "loaded = JNull" and "token_absent s"
      by simp_all
    with load show ?thesis
      by (simp add: initializeAuth_def coherent_def token_absent_def)
  qed
qed

lemma coherent_step:
  assumes "coherent s" and "well_supplied ev s"
  shows "coherent (step ev s)"
proof (cases ev)
  case (GetAccessToken w)
  with assms show ?thesis by (simp add: coherent_getAccessToken)
next
  case (InitializeAuth w)
  with assms show ?thesis by (simp add: coherent_initializeAuth)
next
  case (StartAuthorizationFlow c)
  have "coherent (fst (startAuthorizationFlow c s)) = coherent s"
    by (rule coherent_cong) (simp_all add: startAuthorizationFlow_def)
  with assms(1) StartAuthorizationFlow show ?thesis by simp
next
  case (ListeningEvent w h)
  have "coherent (fst (on_listening w h s)) = coherent s"
    by (rule coherent_cong) (simp_all add: on_listening_def)
  with assms(1) ListeningEvent show ?thesis by simp
next
  case (ErrorEvent h)
  have "coherent (fst (on_error h s)) = coherent s"
    by (rule coherent_cong) (simp_all add: on_error_def)
  with assms(1) ErrorEvent show ?thesis by simp
next
  case (CloseEvent h)
  have "coherent (fst (on_close h s)) = coherent s"
    by (rule coherent_cong)
       (simp_all add: on_close_def fold_close_callbacks_keep split: server_phase.split)
  with assms(1) CloseEvent show ?thesis by simp
next
  case (CallbackRequest w code)
  with assms show ?thesis
    by (simp add: callback_handler_def coherent_missing_code coherent_exchange_code
        split: option.split)
qed

text \<open>
  Claim C4, amended. Starting from the initial state, after every call and
  every listener event the two variables are either both set, \<open>accessToken\<close>
  being the non-empty \<^verbatim>\<open>access_token\<close> of \<open>tokenData\<close>, or both null, provided
  that every record delivered by a refresh, by an exchange or by the token file
  carries a non-empty \<^verbatim>\<open>access_token\<close>, and that a load which finds no record
  happens while both variables are null. No other field of the record is
  checked anywhere.
\<close>

theorem coherent_when_supplied:
  assumes "well_supplied_run evs initial_state"
  shows "coherent (run evs initial_state)"
proof -
  have "coherent s \<Longrightarrow> well_supplied_run evs s \<Longrightarrow> coherent (run evs s)" for s
    by (induction evs arbitrary: s) (simp_all add: coherent_step)
  moreover have "coherent initial_state"
    by (simp add: coherent_def token_absent_def initial_state_def)
  ultimately show ?thesis
    using assms by blast
qed

theorem coherent_when_supplied_witness:
  "well_supplied_run sample_run initial_state \<and> coherent (run sample_run initial_state)"
proof -
  have "well_supplied_run sample_run initial_state"
    by (simp add: sample_run_def initial_state_def initializeAuth_def loadTokenFromFile_def
        world_at_simps delivers_access_token_def new_token_facts token_absent_def
        startAuthorizationFlow_def configured_def on_listening_def callback_handler_def
        exchange_code_def saveTokenToFile_def shut_down_def close_server_def on_close_def)
  with coherent_when_supplied [of sample_run] show ?thesis
    by simp
qed

section \<open>The token store: parsing what was printed\<close>

subsection \<open>Numbers\<close>

lemma char_of_48: "char_of (48::nat) = CHR ''0''"
  by code_simp

lemma of_char_digit_char: "d < 10 \<Longrightarrow> (of_char (digit_char d) :: nat) = 48 + d"
  by (simp add: digit_char_def)

lemma is_digit_digit_char: "d < 10 \<Longrightarrow> is_digit (digit_char d)"
  by (simp add: is_digit_def of_char_digit_char)

lemma digit_val_digit_char: "d < 10 \<Longrightarrow> digit_val (digit_char d) = d"
  by (simp add: digit_val_def of_char_digit_char)

lemma digit_char_zero: "d < 10 \<Longrightarrow> digit_char d = CHR ''0'' \<longleftrightarrow> d = 0"
proof
  assume "d < 10" and "digit_char d = CHR ''0''"
  then have "(of_char (digit_char d) :: nat) = of_char (CHR ''0'')" by simp
  with \<open>d < 10\<close> show "d = 0" by (simp add: of_char_digit_char)
next
  assume "d = 0" then show "digit_char d = CHR ''0''" by (simp add: digit_char_def char_of_48)
qed

lemma digits_not_Nil: "digits n \<noteq> []"
  by (subst digits.simps) simp

lemma digits_all_digit: "\<forall>c \<in> set (digits n). is_digit c"
proof (induction n rule: digits.induct)
  case (1 n)
  show ?case
  proof (cases "n < 10")
    case True
    then show ?thesis
      by (subst digits.simps) (simp add: is_digit_digit_char)
  next
    case False
    with 1 show ?thesis
      by (subst digits.simps) (simp add: is_digit_digit_char)
  qed
qed

lemma nat_of_digits_snoc: "nat_of_digits (ds @ [c]) = 10 * nat_of_digits ds + digit_val c"
  by (simp add: nat_of_digits_def)

lemma nat_of_digits_digits: "nat_of_digits (digits n) = n"
proof (induction n rule: digits.induct)
  case (1 n)
  show ?case
  proof (cases "n < 10")
    case True
    then show ?thesis
      by (subst digits.simps) (simp add: nat_of_digits_def digit_val_digit_char)
  next
    case False
    with 1 have "nat_of_digits (digits (n div 10)) = n div 10" by simp
    with False show ?thesis
      by (subst digits.simps) (simp add: nat_of_digits_snoc digit_val_digit_char)
  qed
qed

lemma hd_digits: "0 < n \<Longrightarrow> hd (digits n) \<noteq> CHR ''0''"
proof (induction n rule: digits.induct)
  case (1 n)
  show ?case
  proof (cases "n < 10")
    case True
    with "1.prems" show ?thesis
      by (subst digits.simps) (simp add: digit_char_zero)
  next
    case False
    then have "0 < n div 10" by simp
    with 1 False have "hd (digits (n div 10)) \<noteq> CHR ''0''" by simp
    with False show ?thesis
      by (subst digits.simps) (simp add: digits_not_Nil)
  qed
qed

lemma digits_zero: "digits 0 = ''0''"
  by (subst digits.simps) (simp add: digit_char_def char_of_48)

lemma no_leading_zero: "\<not> (hd (digits n) = CHR ''0'' \<and> 1 < length (digits n))"
proof (cases "n = 0")
  case True
  then show ?thesis by (simp add: digits_zero)
next
  case False
  then show ?thesis by (simp add: hd_digits)
qed

lemma takeWhile_digits: "number_end rest \<Longrightarrow> takeWhile is_digit (digits n @ rest) = digits n"
  by (cases rest) (simp_all add: takeWhile_append2 digits_all_digit takeWhile_eq_all_conv
      takeWhile_append)

lemma dropWhile_digits: "number_end rest \<Longrightarrow> dropWhile is_digit (digits n @ rest) = rest"
  by (cases rest) (simp_all add: dropWhile_append digits_all_digit dropWhile_append2)

lemma digits_first: "\<exists>c cs. digits n = c # cs \<and> is_digit c"
  using digits_not_Nil [of n] digits_all_digit [of n] by (cases "digits n") auto

lemma parse_number_show_int:
  assumes "number_end rest"
  shows "parse_number (show_int i @ rest) = Some (JNum i, rest)"
proof -
  obtain c cs where d: "digits (nat \<bar>i\<bar>) = c # cs" and c: "is_digit c"
    using digits_first by blast
  have minus: "\<not> is_digit (CHR ''-'')" by (simp add: is_digit_def)
  with c have cm: "c \<noteq> CHR ''-''" by auto
  have tk: "takeWhile is_digit (digits (nat \<bar>i\<bar>) @ rest) = digits (nat \<bar>i\<bar>)"
    using assms by (rule takeWhile_digits)
  have dr: "dropWhile is_digit (digits (nat \<bar>i\<bar>) @ rest) = rest"
    using assms by (rule dropWhile_digits)
  have ne: "\<not> (case rest of [] \<Rightarrow> False | c # _ \<Rightarrow> c = CHR ''.'' \<or> c = CHR ''e'' \<or> c = CHR ''E'')"
    using assms by (cases rest) auto
  show ?thesis
  proof (cases "i < 0")
    case True
    then have "show_int i @ rest = CHR ''-'' # digits (nat \<bar>i\<bar>) @ rest"
      by (simp add: show_int_def abs_if)
    then show ?thesis
      using True tk dr ne no_leading_zero [of "nat \<bar>i\<bar>"] digits_not_Nil [of "nat \<bar>i\<bar>"]
      by (simp add: parse_number_def Let_def nat_of_digits_digits)
  next
    case False
    then have eq: "show_int i @ rest = digits (nat \<bar>i\<bar>) @ rest"
      by (simp add: show_int_def abs_if)
    have "(case show_int i @ rest of [] \<Rightarrow> False | c # _ \<Rightarrow> c = CHR ''-'') = False"
      unfolding eq d using cm by simp
    then show ?thesis
      using False tk dr ne no_leading_zero [of "nat \<bar>i\<bar>"] digits_not_Nil [of "nat \<bar>i\<bar>"] eq
      by (simp add: parse_number_def Let_def nat_of_digits_digits)
  qed
qed


subsection \<open>Strings\<close>

lemma hex_val_hex_char: "d < 16 \<Longrightarrow> hex_val (hex_char d) = Some d"
  by (simp add: hex_val_def hex_char_def Let_def)

lemma hex_val_zero: "hex_val (CHR ''0'') = Some 0"
  by (simp add: hex_val_def)

lemma hex4_control:
  assumes "n < 32"
  shows "hex4 (CHR ''0'') (CHR ''0'') (hex_char (n div 16)) (hex_char (n mod 16)) = Some n"
proof -
  from assms have "n div 16 < 16" and "n mod 16 < 16" by simp_all
  then show ?thesis
    by (simp add: hex4_def hex_val_zero hex_val_hex_char)
qed

lemma parse_chars_quote_char:
  "parse_chars (quote_char c @ cs) =
    (case parse_chars cs of None \<Rightarrow> None | Some (s, r) \<Rightarrow> Some (c # s, r))"
proof (cases "(of_char c :: nat) < 32")
  case True
  note ctl = hex4_control [OF True]
  from True have small: "(of_char c :: nat) < 256" by simp
  from True have nq: "c \<noteq> CHR 0x22" and nb: "c \<noteq> CHR 0x5C" by auto
  show ?thesis
    using nq nb True ctl small
    by (simp add: quote_char_def unescape_def split: option.split)
next
  case False
  then have "c \<noteq> CHR 0x08" "c \<noteq> CHR 0x0C" "c \<noteq> CHR 0x0A" "c \<noteq> CHR 0x0D" "c \<noteq> CHR 0x09"
    by auto
  with False show ?thesis
    by (simp add: quote_char_def unescape_def split: option.split)
qed

lemma parse_chars_quoted:
  "parse_chars (concat (map quote_char s) @ CHR 0x22 # rest) = Some (s, rest)"
  by (induction s) (simp_all add: parse_chars_quote_char)


subsection \<open>Values\<close>

lemma skip_ws_nonws: "\<not> is_ws c \<Longrightarrow> skip_ws (c # cs) = c # cs"
  by (simp add: skip_ws_def)

lemma skip_ws_ws: "is_ws c \<Longrightarrow> skip_ws (c # cs) = skip_ws cs"
  by (simp add: skip_ws_def)

lemma skip_ws_pad: "skip_ws (pad k @ cs) = skip_ws cs"
  by (induction k) (simp_all add: pad_def skip_ws_def is_ws_def)

lemma skip_ws_newline_pad: "skip_ws (CHR 0x0A # pad k @ cs) = skip_ws cs"
  by (simp add: skip_ws_ws is_ws_def skip_ws_pad)

lemma skip_ws_idem: "skip_ws (skip_ws cs) = skip_ws cs"
  by (simp add: skip_ws_def dropWhile_idem)

lemma parse_value_ws: "skip_ws cs = skip_ws cs' \<Longrightarrow> parse_value n cs = parse_value n cs'"
  by (cases n) simp_all

lemma parse_elems_ws: "skip_ws cs = skip_ws cs' \<Longrightarrow> parse_elems n cs = parse_elems n cs'"
  by (cases n) (simp_all add: parse_value_ws [of cs cs'])

lemma parse_members_ws: "skip_ws cs = skip_ws cs' \<Longrightarrow> parse_members n cs = parse_members n cs'"
  by (cases n) simp_all

lemma digit_char_facts:
  assumes "is_digit c"
  shows "\<not> is_ws c" "c \<noteq> CHR ''n''" "c \<noteq> CHR ''t''" "c \<noteq> CHR ''f''" "c \<noteq> CHR 0x22"
    "c \<noteq> CHR ''[''" "c \<noteq> CHR ''{''" "c \<noteq> CHR '']''" "c \<noteq> CHR ''}''"
  using assms by (auto simp add: is_digit_def is_ws_def)

lemma number_start_facts:
  assumes "c = CHR ''-'' \<or> is_digit c"
  shows "\<not> is_ws c \<and> c \<noteq> CHR ''n'' \<and> c \<noteq> CHR ''t'' \<and> c \<noteq> CHR ''f'' \<and> c \<noteq> CHR 0x22
    \<and> c \<noteq> CHR ''['' \<and> c \<noteq> CHR ''{'' \<and> c \<noteq> CHR '']'' \<and> c \<noteq> CHR ''}''"
  using assms
proof
  assume "c = CHR ''-''"
  then show ?thesis by (simp add: is_ws_def)
next
  assume "is_digit c"
  then show ?thesis by (simp add: digit_char_facts)
qed

lemma show_int_first: "\<exists>c r. show_int i = c # r \<and> (c = CHR ''-'' \<or> is_digit c)"
proof (cases "i < 0")
  case True
  then show ?thesis
    by (simp add: show_int_def)
next
  case False
  obtain c cs where "digits (nat i) = c # cs" and "is_digit c"
    using digits_first by blast
  with False show ?thesis
    by (simp add: show_int_def)
qed

lemma parse_value_number:
  assumes "number_end rest"
  shows "parse_value (Suc m) (show_int i @ rest) = Some (JNum i, rest)"
proof -
  obtain c r where cr: "show_int i = c # r" and c: "c = CHR ''-'' \<or> is_digit c"
    using show_int_first by blast
  note facts = number_start_facts [OF c]
  have "parse_value (Suc m) (c # r @ rest) = parse_number (c # r @ rest)"
    using facts by (simp add: skip_ws_nonws)
  also have "\<dots> = Some (JNum i, rest)"
    using parse_number_show_int [OF assms, of i] by (simp add: cr)
  finally show ?thesis
    by (simp add: cr)
qed

lemma parse_value_string:
  "parse_value (Suc m) (quote s @ rest) = Some (JStr s, rest)"
  by (simp add: quote_def skip_ws_nonws is_ws_def parse_chars_quoted)

lemma starts_value_stringify: "starts_value (stringify_at ind v @ rest)"
proof (cases v)
  case (JNum i)
  obtain c r where cr: "show_int i = c # r" and c: "c = CHR ''-'' \<or> is_digit c"
    using show_int_first by blast
  from number_start_facts [OF c] JNum cr show ?thesis by simp
next
  case (JArr xs)
  then show ?thesis by (cases xs) (simp_all add: is_ws_def)
next
  case (JObj ms)
  then show ?thesis by (cases ms) (simp_all add: is_ws_def)
qed (simp_all add: is_ws_def quote_def)


lemma number_end_simps:
  "number_end (CHR 0x0A # cs)" "number_end (CHR '','' # cs)"
  by (simp_all add: is_digit_def)

lemma first_of_elems: "starts_value (elems ind (x # xs) @ rest)"
  using starts_value_stringify [of "ind + 2" x] by (cases xs) (simp_all)

lemma first_of_members: "starts_value (members ind ((k, v) # ms) @ rest)"
  by (cases ms) (simp_all add: quote_def is_ws_def)

lemma roundtrip_aux:
  "\<forall>n rest. fuel v \<le> n \<longrightarrow> number_end rest \<longrightarrow>
      parse_value n (stringify_at ind v @ rest) = Some (v, rest)"
  "xs \<noteq> [] \<longrightarrow> (\<forall>n rest. fuel_elems xs \<le> n \<longrightarrow>
      parse_elems n (elems ind' xs @ rest) = Some (xs, rest))"
  "ms \<noteq> [] \<longrightarrow> (\<forall>n rest. fuel_members ms \<le> n \<longrightarrow>
      parse_members n (members ind'' ms @ rest) = Some (ms, rest))"
proof (induction ind v and ind' xs and ind'' ms rule: stringify_at_elems_members.induct)
  case (1 ind)
  show ?case
  proof (intro allI impI)
    fix n rest assume "fuel JNull \<le> n"
    then obtain m where "n = Suc m" by (cases n) simp_all
    then show "parse_value n (stringify_at ind JNull @ rest) = Some (JNull, rest)"
      by (simp add: skip_ws_nonws is_ws_def expect_def)
  qed
next
  case (2 ind b)
  show ?case
  proof (intro allI impI)
    fix n rest assume "fuel (JBool b) \<le> n"
    then obtain m where "n = Suc m" by (cases n) simp_all
    then show "parse_value n (stringify_at ind (JBool b) @ rest) = Some (JBool b, rest)"
      by (simp add: skip_ws_nonws is_ws_def expect_def)
  qed
next
  case (3 ind i)
  show ?case
  proof (intro allI impI)
    fix n rest assume "fuel (JNum i) \<le> n" and ne: "number_end rest"
    then obtain m where "n = Suc m" by (cases n) simp_all
    then show "parse_value n (stringify_at ind (JNum i) @ rest) = Some (JNum i, rest)"
      using parse_value_number [OF ne] by simp
  qed
next
  case (4 ind s)
  show ?case
  proof (intro allI impI)
    fix n rest assume "fuel (JStr s) \<le> n"
    then obtain m where "n = Suc m" by (cases n) simp_all
    then show "parse_value n (stringify_at ind (JStr s) @ rest) = Some (JStr s, rest)"
      using parse_value_string by simp
  qed
next
  case (5 ind)
  show ?case
  proof (intro allI impI)
    fix n rest assume "fuel (JArr []) \<le> n"
    then obtain m where "n = Suc m" by (cases n) simp_all
    then show "parse_value n (stringify_at ind (JArr []) @ rest) = Some (JArr [], rest)"
      by (simp add: skip_ws_nonws is_ws_def)
  qed
next
  case (6 ind x xs)
  show ?case
  proof (intro allI impI)
    fix n rest assume "fuel (JArr (x # xs)) \<le> n"
    then obtain m where n: "n = Suc m" and m: "fuel_elems (x # xs) \<le> m"
      by (cases n) simp_all
    obtain d r where dr: "elems ind (x # xs) @ rest = d # r"
      and d: "\<not> is_ws d" "d \<noteq> CHR '']''"
      using first_of_elems [of ind x xs rest] by (cases "elems ind (x # xs) @ rest") simp_all
    have sk: "skip_ws (CHR 0x0A # pad (ind + 2) @ elems ind (x # xs) @ rest) = d # r"
      by (simp add: skip_ws_newline_pad dr skip_ws_nonws d)
    from 6 m have "parse_elems m (elems ind (x # xs) @ rest) = Some (x # xs, rest)"
      by blast
    then have "parse_elems m (d # r) = Some (x # xs, rest)"
      by (simp only: dr)
    then show "parse_value n (stringify_at ind (JArr (x # xs)) @ rest) = Some (JArr (x # xs), rest)"
      using sk d by (simp add: n skip_ws_nonws is_ws_def)
  qed
next
  case (7 ind)
  show ?case
  proof (intro allI impI)
    fix n rest assume "fuel (JObj []) \<le> n"
    then obtain m where "n = Suc m" by (cases n) simp_all
    then show "parse_value n (stringify_at ind (JObj []) @ rest) = Some (JObj [], rest)"
      by (simp add: skip_ws_nonws is_ws_def)
  qed
next
  case (8 ind m' ms)
  show ?case
  proof (intro allI impI)
    fix n rest assume "fuel (JObj (m' # ms)) \<le> n"
    then obtain m where n: "n = Suc m" and m: "fuel_members (m' # ms) \<le> m"
      by (cases n) simp_all
    obtain k v where kv: "m' = (k, v)" by (cases m')
    obtain d r where dr: "members ind (m' # ms) @ rest = d # r"
      and d: "\<not> is_ws d" "d \<noteq> CHR ''}''"
      using first_of_members [of ind k v ms rest] unfolding kv
      by (cases "members ind ((k, v) # ms) @ rest") simp_all
    have sk: "skip_ws (CHR 0x0A # pad (ind + 2) @ members ind (m' # ms) @ rest) = d # r"
      by (simp add: skip_ws_newline_pad dr skip_ws_nonws d)
    from 8 m have "parse_members m (members ind (m' # ms) @ rest) = Some (m' # ms, rest)"
      by blast
    then have "parse_members m (d # r) = Some (m' # ms, rest)"
      by (simp only: dr)
    then show "parse_value n (stringify_at ind (JObj (m' # ms)) @ rest) = Some (JObj (m' # ms), rest)"
      using sk d by (simp add: n skip_ws_nonws is_ws_def)
  qed
next
  case (9 ind)
  show ?case by simp
next
  case (10 ind x)
  show ?case
  proof (intro allI impI)
    fix n rest assume "fuel_elems [x] \<le> n"
    then obtain m where n: "n = Suc m" and m: "fuel x \<le> m"
      by (cases n) simp_all
    have "parse_value m (stringify_at (ind + 2) x @ CHR 0x0A # pad ind @ CHR '']'' # rest)
        = Some (x, CHR 0x0A # pad ind @ CHR '']'' # rest)"
      using 10 m number_end_simps(1) by blast
    moreover have "skip_ws (CHR 0x0A # pad ind @ CHR '']'' # rest) = CHR '']'' # rest"
      by (simp add: skip_ws_newline_pad skip_ws_nonws is_ws_def)
    ultimately show "parse_elems n (elems ind [x] @ rest) = Some ([x], rest)"
      by (simp add: n)
  qed
next
  case (11 ind x y ys)
  show ?case
  proof (intro impI allI)
    fix n rest assume "fuel_elems (x # y # ys) \<le> n"
    then obtain m where n: "n = Suc m" and mx: "fuel x \<le> m" and my: "fuel_elems (y # ys) \<le> m"
      by (cases n) simp_all
    let ?tail = "CHR 0x0A # pad (ind + 2) @ elems ind (y # ys) @ rest"
    have "parse_value m (stringify_at (ind + 2) x @ CHR '','' # ?tail) = Some (x, CHR '','' # ?tail)"
      using "11.IH"(1) mx number_end_simps(2) by blast
    moreover have "skip_ws (CHR '','' # ?tail) = CHR '','' # ?tail"
      by (simp add: skip_ws_nonws is_ws_def)
    moreover have "parse_elems m ?tail = parse_elems m (elems ind (y # ys) @ rest)"
      by (rule parse_elems_ws) (simp add: skip_ws_newline_pad)
    moreover have "parse_elems m (elems ind (y # ys) @ rest) = Some (y # ys, rest)"
      using "11.IH"(2) my by blast
    ultimately show "parse_elems n (elems ind (x # y # ys) @ rest) = Some (x # y # ys, rest)"
      by (simp add: n)
  qed
next
  case (12 ind)
  show ?case by simp
next
  case (13 ind k v)
  show ?case
  proof (intro impI allI)
    fix n rest assume "fuel_members [(k, v)] \<le> n"
    then obtain m where n: "n = Suc m" and m: "fuel v \<le> m"
      by (cases n) simp_all
    let ?after = "CHR 0x0A # pad ind @ CHR ''}'' # rest"
    have key: "parse_chars (concat (map quote_char k) @ CHR 0x22 # CHR '':'' # CHR '' '' #
        stringify_at (ind + 2) v @ ?after) = Some (k, CHR '':'' # CHR '' '' # stringify_at (ind + 2) v @ ?after)"
      by (rule parse_chars_quoted)
    have "parse_value m (CHR '' '' # stringify_at (ind + 2) v @ ?after)
        = parse_value m (stringify_at (ind + 2) v @ ?after)"
      by (rule parse_value_ws) (simp add: skip_ws_ws is_ws_def)
    moreover have "parse_value m (stringify_at (ind + 2) v @ ?after) = Some (v, ?after)"
      using 13 m number_end_simps(1) by blast
    moreover have "skip_ws ?after = CHR ''}'' # rest"
      by (simp add: skip_ws_newline_pad skip_ws_nonws is_ws_def)
    ultimately show "parse_members n (members ind [(k, v)] @ rest) = Some ([(k, v)], rest)"
      using key by (simp add: n quote_def skip_ws_nonws is_ws_def)
  qed
next
  case (14 ind k v m' ms)
  show ?case
  proof (intro impI allI)
    fix n rest assume "fuel_members ((k, v) # m' # ms) \<le> n"
    then obtain m where n: "n = Suc m" and mv: "fuel v \<le> m" and mm: "fuel_members (m' # ms) \<le> m"
      by (cases n) simp_all
    let ?tail = "CHR 0x0A # pad (ind + 2) @ members ind (m' # ms) @ rest"
    have key: "parse_chars (concat (map quote_char k) @ CHR 0x22 # CHR '':'' # CHR '' '' #
        stringify_at (ind + 2) v @ CHR '','' # ?tail)
        = Some (k, CHR '':'' # CHR '' '' # stringify_at (ind + 2) v @ CHR '','' # ?tail)"
      by (rule parse_chars_quoted)
    have "parse_value m (CHR '' '' # stringify_at (ind + 2) v @ CHR '','' # ?tail)
        = parse_value m (stringify_at (ind + 2) v @ CHR '','' # ?tail)"
      by (rule parse_value_ws) (simp add: skip_ws_ws is_ws_def)
    moreover have "parse_value m (stringify_at (ind + 2) v @ CHR '','' # ?tail)
        = Some (v, CHR '','' # ?tail)"
      using "14.IH"(1) mv number_end_simps(2) by blast
    moreover have "skip_ws (CHR '','' # ?tail) = CHR '','' # ?tail"
      by (simp add: skip_ws_nonws is_ws_def)
    moreover have "parse_members m ?tail = parse_members m (members ind (m' # ms) @ rest)"
      by (rule parse_members_ws) (simp add: skip_ws_newline_pad)
    moreover have "parse_members m (members ind (m' # ms) @ rest) = Some (m' # ms, rest)"
      using "14.IH"(2) mm by blast
    ultimately show "parse_members n (members ind ((k, v) # m' # ms) @ rest)
        = Some ((k, v) # m' # ms, rest)"
      using key by (simp add: n quote_def skip_ws_nonws is_ws_def)
  qed
qed


subsection \<open>The nesting bound and the round trip\<close>

lemma length_show_int: "Suc 0 \<le> length (show_int i)"
  using digits_not_Nil [of "nat i"] by (cases "digits (nat i)") (simp_all add: show_int_def)

lemma fuel_bound:
  "fuel v \<le> 2 * length (stringify_at ind v)"
  "fuel_elems xs \<le> 2 * length (elems ind' xs)"
  "fuel_members ms \<le> 2 * length (members ind'' ms)"
proof (induction ind v and ind' xs and ind'' ms rule: stringify_at_elems_members.induct)
  case (3 ind i)
  show ?case
    using length_show_int [of i] by simp
qed (simp_all add: quote_def)

lemma JSON_roundtrip: "JSON_parse (JSON_stringify t) = Some t"
proof -
  have "fuel t \<le> 2 * length (stringify_at 0 t) + 2"
    using fuel_bound(1) [of t 0] by simp
  moreover have "number_end []"
    by simp
  ultimately have "parse_value (2 * length (stringify_at 0 t) + 2) (stringify_at 0 t @ [])
      = Some (t, [])"
    using roundtrip_aux(1) [of t 0] by blast
  then show ?thesis
    by (simp add: JSON_parse_def JSON_stringify_def skip_ws_def del: parse_value.simps)
qed

text \<open>
  Claim C6. Whatever record is saved, a \<open>FitbitTokenData\<close> with or without
  its optional field or any other value, a \<open>loadTokenFromFile\<close> that follows
  a \<open>saveTokenToFile\<close> returns that record, the write and the read of the
  file succeeding: \<^verbatim>\<open>JSON.parse\<close> inverts \<^verbatim>\<open>JSON.stringify\<close> on every value of
  the modelled fragment.
\<close>

theorem save_then_load:
  assumes "write_ok w" and "read_ok w'"
  shows "loadTokenFromFile w' (fst (saveTokenToFile w t s))
      = (t, [ReadFile, Log ''Token loaded from file successfully''])"
  using assms by (simp add: loadTokenFromFile_def saveTokenToFile_def JSON_roundtrip)

theorem save_then_load_witness:
  "write_ok (world_at 0) \<and> read_ok (world_at 1)
   \<and> loadTokenFromFile (world_at 1) (fst (saveTokenToFile (world_at 0) undated_token initial_state))
      = (undated_token, [ReadFile, Log ''Token loaded from file successfully''])"
  using save_then_load [of "world_at 0" "world_at 1" undated_token initial_state]
  by (simp add: world_at_simps)

section \<open>An expired record\<close>




end
